theory Spec2Isabelle
  imports Complex_Main "HOL-Library.Sublist" "HOL-Library.Char_ord" "HOL-Library.List_Lexorder"
begin

section \<open>Python values, exceptions and string helpers\<close>

text \<open>
  Exceptions are values. An exception carries its class and the text that
  \<^verbatim>\<open>str(e)\<close> yields. A function of the source that can raise returns
  \<open>exn + 'a\<close>, with \<open>Inl\<close> for the raised exception.
\<close>

datatype exn_class =
    FileNotFoundError | PermissionError | NotADirectoryError | IsADirectoryError
  | FileExistsError | IndexError | ValueError | RuntimeError | OSError | ReadError

datatype exn = Exn (exn_type: exn_class) (exn_str: string)

text \<open>Values that can be stored as JSON metadata.\<close>

datatype pyval =
    PyNone | PyBool bool | PyInt int | PyStr string
  | PyList "pyval list" | PyDict "(string \<times> pyval) list"

text \<open>\<^verbatim>\<open>s.startswith(p)\<close>\<close>

definition startswith :: "string \<Rightarrow> string \<Rightarrow> bool" where
  "startswith s p = prefix p s"

text \<open>\<^verbatim>\<open>s.split(sep)\<close> for a one-character separator: never the empty list.\<close>

fun split_on :: "char \<Rightarrow> string \<Rightarrow> string list" where
  "split_on sep [] = [[]]"
| "split_on sep (c # cs) =
     (if c = sep then [] # split_on sep cs
      else (case split_on sep cs of
              [] \<Rightarrow> [[c]]
            | w # ws \<Rightarrow> (c # w) # ws))"

text \<open>\<^verbatim>\<open>sep.join(xs)\<close>\<close>

fun join_with :: "string \<Rightarrow> string list \<Rightarrow> string" where
  "join_with sep [] = []"
| "join_with sep [x] = x"
| "join_with sep (x # y # ys) = x @ sep @ join_with sep (y # ys)"

text \<open>
  \<^verbatim>\<open>s.upper()\<close>. Paths, drive names and mount-table lines are taken to be ASCII
  text, one \<open>char\<close> per code point.
\<close>

definition upper_char :: "char \<Rightarrow> char" where
  "upper_char c =
     (if 97 \<le> (of_char c :: nat) \<and> (of_char c :: nat) \<le> 122
      then char_of ((of_char c :: nat) - 32) else c)"

definition upper :: "string \<Rightarrow> string" where
  "upper s = map upper_char s"

section \<open>Path functions of a POSIX platform\<close>

text \<open>
  \<^verbatim>\<open>posixpath.join(a, b)\<close> and \<^verbatim>\<open>posixpath.normpath(path)\<close>, the values of
  \<^verbatim>\<open>os.path.join\<close> and \<^verbatim>\<open>os.path.normpath\<close> on a POSIX platform.
\<close>

definition posix_join :: "string \<Rightarrow> string \<Rightarrow> string" where
  "posix_join a b =
     (if startswith b ''/'' then b
      else if a = [] \<or> last a = CHR ''/'' then a @ b
      else a @ ''/'' @ b)"

definition normpath_step :: "nat \<Rightarrow> string list \<Rightarrow> string \<Rightarrow> string list" where
  "normpath_step initial_slashes new_comps part =
     (if part = [] \<or> part = ''.'' then new_comps
      else if part \<noteq> ''..'' \<or> (initial_slashes = 0 \<and> new_comps = [])
              \<or> (new_comps \<noteq> [] \<and> last new_comps = ''..'')
           then new_comps @ [part]
      else if new_comps \<noteq> [] then butlast new_comps
      else new_comps)"

definition posix_normpath :: "string \<Rightarrow> string" where
  "posix_normpath path =
     (if path = [] then ''.''
      else
        let initial_slashes =
              (if startswith path ''/'' then
                 (if startswith path ''//'' \<and> \<not> startswith path ''///'' then 2 else 1)
               else (0::nat));
            comps = foldl (normpath_step initial_slashes) [] (split_on (CHR ''/'') path);
            p = replicate initial_slashes (CHR ''/'') @ join_with ''/'' comps
        in if p = [] then ''.'' else p)"

section \<open>The operating system\<close>

text \<open>
  The functions of the source read the file system, the mount table and the
  platform through library calls. The record \<open>os\<close> collects these calls; the
  state of the machine they read is a value of the type \<open>'w\<close>. The path functions
  \<^verbatim>\<open>os.path.normpath\<close> and \<^verbatim>\<open>os.path.join\<close> differ between platforms and are
  fields as well. \<^verbatim>\<open>subprocess.run\<close> yields the exit status and the captured
  output of the \<^verbatim>\<open>mount\<close> command, or raises when the command cannot be
  started or its output cannot be decoded; \<^verbatim>\<open>tarfile.open(p, 'r:xz').getmembers()\<close> yields
  the members of an archive or raises; \<^verbatim>\<open>tar.extract(member, path=mount)\<close> changes
  the state and may raise (\<open>Some e\<close>), leaving behind whatever it wrote.
\<close>

datatype entry_type = REGTYPE | DIRTYPE

record tarinfo =
  tar_name :: string
  tar_type :: entry_type
  tar_data :: string

record completed_process =
  returncode :: int
  stdout :: "string option"

record 'w os =
  platform_system :: string
  environ_get :: "string \<Rightarrow> string option"
  normpath :: "string \<Rightarrow> string"
  path_join :: "string \<Rightarrow> string \<Rightarrow> string"
  listdir :: "'w \<Rightarrow> string \<Rightarrow> exn + string list"
  path_isdir :: "'w \<Rightarrow> string \<Rightarrow> bool"
  path_exists :: "'w \<Rightarrow> string \<Rightarrow> bool"
  run_mount :: "'w \<Rightarrow> exn + completed_process"
  GetLogicalDrives :: "'w \<Rightarrow> int"
  GetDriveType :: "'w \<Rightarrow> string \<Rightarrow> exn + int"
  tar_getmembers :: "'w \<Rightarrow> string \<Rightarrow> exn + tarinfo list"
  tar_extract :: "tarinfo \<Rightarrow> string \<Rightarrow> 'w \<Rightarrow> exn option \<times> 'w"

section \<open>helpers/u.py\<close>

text \<open>
  \<^verbatim>\<open>filter(lambda x: x[0] != '.', names)\<close>: indexing an empty name raises
  IndexError, which ends the whole filter.
\<close>

fun visible_filter :: "string list \<Rightarrow> exn + string list" where
  "visible_filter [] = Inr []"
| "visible_filter (x # xs) =
     (case x of
        [] \<Rightarrow> Inl (Exn IndexError ''string index out of range'')
      | c # _ \<Rightarrow>
          (case visible_filter xs of
             Inl e \<Rightarrow> Inl e
           | Inr ys \<Rightarrow> Inr (if c \<noteq> CHR ''.'' then x # ys else ys)))"

definition get_visible_children :: "'w os \<Rightarrow> 'w \<Rightarrow> string \<Rightarrow> exn + string list" where
  "get_visible_children os w d =
     (case listdir os w d of
        Inl e \<Rightarrow> Inl e
      | Inr names \<Rightarrow> visible_filter names)"

definition get_visible_folders :: "'w os \<Rightarrow> 'w \<Rightarrow> string \<Rightarrow> exn + string list" where
  "get_visible_folders os w d =
     (case get_visible_children os w d of
        Inl e \<Rightarrow> Inl e
      | Inr xs \<Rightarrow> Inr (filter (\<lambda>x. path_isdir os w (path_join os d x)) xs))"

section \<open>helpers/mount.py\<close>

definition ascii_uppercase :: string where
  "ascii_uppercase = ''ABCDEFGHIJKLMNOPQRSTUVWXYZ''"

text \<open>The drive name \<^verbatim>\<open>f"{letter}:\\"\<close>: the letter, a colon and a backslash.\<close>

definition drive_name :: "char \<Rightarrow> string" where
  "drive_name letter = [letter, CHR '':'', CHR 0x5C]"

text \<open>
  The loop of \<^verbatim>\<open>get_windows_drives\<close>: the lowest bit of the mask decides the
  letter, then the mask is shifted right by one.
\<close>

fun drives_loop :: "string \<Rightarrow> int \<Rightarrow> string list" where
  "drives_loop [] bitmask = []"
| "drives_loop (letter # letters) bitmask =
     (if bitmask mod 2 = 1 then [drive_name letter] else [])
     @ drives_loop letters (bitmask div 2)"

definition get_windows_drives :: "'w os \<Rightarrow> 'w \<Rightarrow> string list" where
  "get_windows_drives os w = drives_loop ascii_uppercase (GetLogicalDrives os w)"

text \<open>
  The regular expression of \<^verbatim>\<open>get_mount_from_line\<close>,
  \<^verbatim>\<open>^\s*(?P<device>/dev/\w+) on (?P<mount>[^\0]+) (type .*)?\(.*\)\s*$\<close>,
  matched as \<^verbatim>\<open>re.match\<close> does: at the start of the line, each repetition
  greedy, giving back one character at a time until the rest of the pattern
  matches. \<open>is_space\<close> is \<^verbatim>\<open>\s\<close> and \<open>is_word\<close> is \<^verbatim>\<open>\w\<close> on ASCII text.
\<close>

definition is_space :: "char \<Rightarrow> bool" where
  "is_space c =
     (let n = (of_char c :: nat)
      in (9 \<le> n \<and> n \<le> 13) \<or> (28 \<le> n \<and> n \<le> 32))"

definition is_word :: "char \<Rightarrow> bool" where
  "is_word c =
     (let n = (of_char c :: nat)
      in (48 \<le> n \<and> n \<le> 57) \<or> (65 \<le> n \<and> n \<le> 90) \<or> n = 95
         \<or> (97 \<le> n \<and> n \<le> 122))"

text \<open>\<^verbatim>\<open>.*\<close> followed by the pattern \<open>k\<close>: \<^verbatim>\<open>.\<close> is any character but a newline.\<close>

fun dot_star :: "(string \<Rightarrow> bool) \<Rightarrow> string \<Rightarrow> bool" where
  "dot_star k [] = k []"
| "dot_star k (c # cs) = (k (c # cs) \<or> (c \<noteq> CHR 0x0A \<and> dot_star k cs))"

text \<open>\<^verbatim>\<open>\)\s*$\<close>\<close>

definition close_paren :: "string \<Rightarrow> bool" where
  "close_paren s = (case s of [] \<Rightarrow> False | c # cs \<Rightarrow> c = CHR '')'' \<and> list_all is_space cs)"

text \<open>\<^verbatim>\<open>\(.*\)\s*$\<close>\<close>

definition paren_group :: "string \<Rightarrow> bool" where
  "paren_group s = (case s of [] \<Rightarrow> False | c # cs \<Rightarrow> c = CHR ''('' \<and> dot_star close_paren cs)"

text \<open>\<^verbatim>\<open> (type .*)?\(.*\)\s*$\<close>: what must follow the mount path.\<close>

definition after_mount :: "string \<Rightarrow> bool" where
  "after_mount s =
     (case s of
        [] \<Rightarrow> False
      | c # cs \<Rightarrow>
          c = CHR '' '' \<and>
          ((startswith cs ''type '' \<and> dot_star paren_group (drop 5 cs)) \<or> paren_group cs))"

text \<open>
  \<^verbatim>\<open>(?P<mount>[^\0]+)\<close>: the group first takes \<open>n\<close> characters, as many as are
  not NUL, and then gives them back one by one; the first length at which
  the rest matches is the group.
\<close>

fun match_mount :: "string \<Rightarrow> nat \<Rightarrow> string option" where
  "match_mount s 0 = None"
| "match_mount s (Suc n) =
     (if after_mount (drop (Suc n) s) then Some (take (Suc n) s) else match_mount s n)"

definition get_mount_from_line :: "string \<Rightarrow> (string \<times> string) option" where
  "get_mount_from_line line =
     (let s1 = dropWhile is_space line in
      if \<not> startswith s1 ''/dev/'' then None
      else
        let s2 = drop 5 s1;
            w = takeWhile is_word s2;
            s3 = dropWhile is_word s2
        in if w = [] \<or> \<not> startswith s3 '' on '' then None
           else
             let s4 = drop 4 s3
             in (case match_mount s4 (length (takeWhile (\<lambda>c. c \<noteq> CHR 0x00) s4)) of
                   None \<Rightarrow> None
                 | Some m \<Rightarrow> Some (''/dev/'' @ w, m)))"

definition BAD_PREFIX :: "string list" where
  "BAD_PREFIX = [''/dev'', ''/sys'', ''/net'', ''/proc'', ''/run'', ''/boot'']"

definition is_poopy_mount :: "'w os \<Rightarrow> string \<Rightarrow> bool" where
  "is_poopy_mount os mount =
     (if platform_system os = ''Windows'' then
        (let system_drive = (case environ_get os ''SystemDrive'' of None \<Rightarrow> ''C:'' | Some d \<Rightarrow> d)
         in startswith (upper mount) (upper system_drive))
      else if mount \<in> set [''/'', ''/home''] then True
      else if list_ex (\<lambda>p. startswith mount p) BAD_PREFIX then True
      else False)"

text \<open>
  \<open>get_potential_mounts\<close> returns what it printed and its result. The call of
  \<^verbatim>\<open>run\<close> stands in no \<^verbatim>\<open>try\<close> block, so its exception is the exception of
  \<open>get_potential_mounts\<close> (\<open>Inl\<close>). The result \<open>Inr None\<close> is Python's \<^verbatim>\<open>None\<close>.
\<close>

definition get_potential_mounts ::
  "'w os \<Rightarrow> 'w \<Rightarrow> string list \<times> (exn + (string \<times> string) list option)" where
  "get_potential_mounts os w =
     (if platform_system os = ''Windows'' then
        ([], Inr (Some (map (\<lambda>drive. (drive, drive))
                    (filter (\<lambda>drive. \<not> is_poopy_mount os drive) (get_windows_drives os w)))))
      else
        (case run_mount os w of
           Inl e \<Rightarrow> ([], Inl e)
         | Inr result \<Rightarrow>
             if returncode result \<noteq> 0 then ([''mount command appeared to fail''], Inr None)
             else (case stdout result of
                     None \<Rightarrow> ([''uh oh''], Inr None)
                   | Some out \<Rightarrow>
                       let lines = split_on (CHR 0x0A) out;
                           mounts = map get_mount_from_line lines;
                           filtered = concat (map (\<lambda>x. case x of None \<Rightarrow> []
                                          | Some v \<Rightarrow> if \<not> is_poopy_mount os (snd v) then [v] else [])
                                        mounts)
                       in ([], Inr (Some filtered)))))"

section \<open>helpers/op1.py\<close>

definition OP1_BASE_DIRS :: "string set" where
  "OP1_BASE_DIRS = {''tape'', ''album'', ''synth'', ''drum''}"

definition DRIVE_REMOVABLE :: int where
  "DRIVE_REMOVABLE = 2"

definition get_removable_drives :: "'w os \<Rightarrow> 'w \<Rightarrow> string list" where
  "get_removable_drives os w =
     (if platform_system os \<noteq> ''Windows'' then []
      else filter (\<lambda>drive. case GetDriveType os w drive of
                              Inl e \<Rightarrow> False
                            | Inr drive_type \<Rightarrow> drive_type = DRIVE_REMOVABLE)
             (map drive_name ascii_uppercase))"

text \<open>
  \<open>is_op1_drive\<close> returns what it printed and its result. It catches every
  exception, so it has no error result.
\<close>

definition is_op1_drive :: "'w os \<Rightarrow> 'w \<Rightarrow> string \<Rightarrow> string list \<times> bool" where
  "is_op1_drive os w path0 =
     (let path = normpath os path0 in
      case get_visible_folders os w path of
        Inr subdirs \<Rightarrow> ([], OP1_BASE_DIRS \<subseteq> set subdirs)
      | Inl e \<Rightarrow>
          if exn_type e = PermissionError \<or> exn_type e = FileNotFoundError then ([], False)
          else ([''Warning: Unexpected error checking path '' @ path @ '': '' @ exn_str e], False))"

definition is_valid_mount :: "'w os \<Rightarrow> 'w \<Rightarrow> string \<Rightarrow> string list \<times> bool" where
  "is_valid_mount os w mount_point0 =
     (let mount_point = normpath os mount_point0 in
      if path_exists os w mount_point then is_op1_drive os w mount_point
      else ([], False))"

text \<open>
  The loops of \<open>find_op1_mount\<close>: the first path that \<open>is_op1_drive\<close> accepts
  is returned. The handler for PermissionError and FileNotFoundError around
  the call in the source is never entered, since \<open>is_op1_drive\<close> raises nothing.
  The call of \<open>get_potential_mounts\<close> stands before that \<^verbatim>\<open>try\<close> block, so an
  exception of the mount query leaves \<open>find_op1_mount\<close> (\<open>Inl\<close>).
\<close>

fun first_op1_drive :: "'w os \<Rightarrow> 'w \<Rightarrow> string list \<Rightarrow> string list \<times> string option" where
  "first_op1_drive os w [] = ([], None)"
| "first_op1_drive os w (p # ps) =
     (case is_op1_drive os w p of
        (out, True) \<Rightarrow> (out @ [''Found OP-1 at '' @ p], Some p)
      | (out, False) \<Rightarrow>
          (case first_op1_drive os w ps of (out', r) \<Rightarrow> (out @ out', r)))"

definition find_op1_mount :: "'w os \<Rightarrow> 'w \<Rightarrow> string list \<times> (exn + string option)" where
  "find_op1_mount os w =
     (if platform_system os = ''Windows'' then
        (case first_op1_drive os w (get_removable_drives os w) of (out, r) \<Rightarrow> (out, Inr r))
      else
        (case get_potential_mounts os w of
           (out, Inl e) \<Rightarrow> (out, Inl e)
         | (out, Inr None) \<Rightarrow> (out, Inr None)
         | (out, Inr (Some mounts)) \<Rightarrow>
             (case first_op1_drive os w (map snd mounts) of (out', r) \<Rightarrow> (out @ out', Inr r))))"

section \<open>Python's float arithmetic\<close>

text \<open>
  \<^verbatim>\<open>int((i + 1) / total_members * 100)\<close> is computed in IEEE 754 double
  precision. A double is modelled by the rational number it denotes.
  \<open>double_round x\<close> is the double nearest to a positive \<open>x\<close>, ties to even: the
  exponent \<open>e\<close> is chosen so that \<open>x / 2 ^ e\<close> lies in \<open>[2 ^ 52, 2 ^ 53)\<close>, and that
  quotient is rounded to an integer. Overflow and subnormal numbers are
  outside the model; they do not arise for the quotients of member counts.
  Python's \<^verbatim>\<open>a / b\<close> on integers is the correctly rounded quotient, a product of
  doubles is the rounded exact product, and \<^verbatim>\<open>int(x)\<close> truncates towards zero.
\<close>

definition pow2 :: "int \<Rightarrow> rat" where
  "pow2 e = (if 0 \<le> e then 2 ^ nat e else 1 / 2 ^ nat (- e))"

definition round_half_even :: "rat \<Rightarrow> int" where
  "round_half_even x =
     (let f = \<lfloor>x\<rfloor>; r = x - of_int f
      in if r < 1 / 2 then f
         else if 1 / 2 < r then f + 1
         else if even f then f else f + 1)"

function bit_length :: "int \<Rightarrow> int" where
  "bit_length n = (if n \<le> 0 then 0 else 1 + bit_length (n div 2))"
  by pat_completeness auto
termination
  by (relation "measure nat") auto

declare bit_length.simps [simp del]

definition floor_log2 :: "rat \<Rightarrow> int" where
  "floor_log2 x =
     (case quotient_of x of (p, q) \<Rightarrow>
        let k = bit_length p - bit_length q
        in if pow2 k \<le> x then k else k - 1)"

definition double_round :: "rat \<Rightarrow> rat" where
  "double_round x =
     (if x \<le> 0 then 0
      else let e = floor_log2 x - 52
           in of_int (round_half_even (x / pow2 e)) * pow2 e)"

definition py_truediv :: "int \<Rightarrow> int \<Rightarrow> rat" where
  "py_truediv a b = double_round (of_int a / of_int b)"

definition py_float_mul :: "rat \<Rightarrow> rat \<Rightarrow> rat" where
  "py_float_mul x y = double_round (x * y)"

definition py_int :: "rat \<Rightarrow> int" where
  "py_int x = (if 0 \<le> x then \<lfloor>x\<rfloor> else \<lceil>x\<rceil>)"

section \<open>helpers/backups.py: restore\_archive\<close>

text \<open>\<^verbatim>\<open>int((i + 1) / total_members * 100)\<close>, for the loop index \<open>i\<close>.\<close>

definition progress_value :: "nat \<Rightarrow> nat \<Rightarrow> int" where
  "progress_value i total_members =
     py_int (py_float_mul (py_truediv (int i + 1) (int total_members)) 100)"

text \<open>
  What \<open>restore_archive\<close> leaves behind: the exception it raised, if any, the
  state of the machine, the lines it printed and the values it passed to the
  progress callback, in the order of the calls.
\<close>

record 'w restore_outcome =
  raised :: "exn option"
  machine_after :: 'w
  printed :: "string list"
  progress_calls :: "int list"

text \<open>
  The loop over \<^verbatim>\<open>enumerate(members)\<close>. The flag \<open>cb\<close> says whether a progress
  callback was given. An exception of \<^verbatim>\<open>tar.extract\<close> ends the loop.
\<close>

fun restore_loop ::
  "'w os \<Rightarrow> string \<Rightarrow> bool \<Rightarrow> nat \<Rightarrow> nat \<Rightarrow> tarinfo list \<Rightarrow> 'w \<Rightarrow> int list
     \<Rightarrow> exn option \<times> 'w \<times> int list" where
  "restore_loop os mount cb total_members i [] w calls = (None, w, calls)"
| "restore_loop os mount cb total_members i (member # members) w calls =
     (case tar_extract os (member\<lparr>tar_name := normpath os (tar_name member)\<rparr>) mount w of
        (Some e, w') \<Rightarrow> (Some e, w', calls)
      | (None, w') \<Rightarrow>
          restore_loop os mount cb total_members (Suc i) members w'
            (if cb then calls @ [progress_value i total_members] else calls))"

text \<open>
  \<open>restore_archive\<close> with the mount path given. (With \<^verbatim>\<open>mount=None\<close> the source
  first waits for the device; that branch is not part of this model.)
\<close>

definition restore_archive ::
  "'w os \<Rightarrow> 'w \<Rightarrow> string \<Rightarrow> string \<Rightarrow> bool \<Rightarrow> 'w restore_outcome" where
  "restore_archive os w archive_path0 mount0 cb =
     (let archive_path = normpath os archive_path0;
          mount = normpath os mount0
      in if \<not> path_exists os w archive_path then
           \<lparr>raised = Some (Exn FileNotFoundError (''Backup file not found: '' @ archive_path)),
            machine_after = w, printed = [], progress_calls = []\<rparr>
         else
           (case is_valid_mount os w mount of
              (out, False) \<Rightarrow>
                \<lparr>raised = Some (Exn ValueError (''Invalid mount point: '' @ mount)),
                 machine_after = w, printed = out, progress_calls = []\<rparr>
            | (out, True) \<Rightarrow>
                (case tar_getmembers os w archive_path of
                   Inl e \<Rightarrow>
                     \<lparr>raised = Some (Exn RuntimeError (''Failed to restore backup: '' @ exn_str e)),
                      machine_after = w, printed = out, progress_calls = []\<rparr>
                 | Inr members \<Rightarrow>
                     (case restore_loop os mount cb (length members) 0 members w [] of
                        (Some e, w', calls) \<Rightarrow>
                          \<lparr>raised = Some (Exn RuntimeError
                                      (''Failed to restore backup: '' @ exn_str e)),
                           machine_after = w', printed = out, progress_calls = calls\<rparr>
                      | (None, w', calls) \<Rightarrow>
                          \<lparr>raised = None, machine_after = w',
                           printed = out @ [''Restore completed successfully.''],
                           progress_calls = calls\<rparr>))))"

text \<open>
  The progress value in the words of the specification,
  \<^verbatim>\<open>round((entriesProcessed/total)*100)\<close>, in exact arithmetic. It is stated only
  to be compared with \<open>progress_value\<close>.
\<close>

definition spec_progress :: "nat \<Rightarrow> nat \<Rightarrow> int" where
  "spec_progress entries_processed total_entries =
     round ((of_nat entries_processed / of_nat total_entries) * 100 :: rat)"

section \<open>helpers/backups.py: generate\_archive\<close>

text \<open>
  \<^verbatim>\<open>posixpath.abspath\<close> and \<^verbatim>\<open>posixpath.relpath(path, start)\<close>; \<open>cwd\<close> is the value
  of \<^verbatim>\<open>os.getcwd()\<close>. \<^verbatim>\<open>os.path.commonprefix\<close> of two lists is their longest
  common prefix.
\<close>

definition posix_abspath :: "string \<Rightarrow> string \<Rightarrow> string" where
  "posix_abspath cwd path =
     posix_normpath (if startswith path ''/'' then path else posix_join cwd path)"

fun commonprefix :: "string list \<Rightarrow> string list \<Rightarrow> string list" where
  "commonprefix (x # xs) (y # ys) = (if x = y then x # commonprefix xs ys else [])"
| "commonprefix xs ys = []"

definition posix_relpath :: "string \<Rightarrow> string \<Rightarrow> string \<Rightarrow> string" where
  "posix_relpath cwd path start =
     (let start_list = filter (\<lambda>x. x \<noteq> []) (split_on (CHR ''/'') (posix_abspath cwd start));
          path_list = filter (\<lambda>x. x \<noteq> []) (split_on (CHR ''/'') (posix_abspath cwd path));
          i = length (commonprefix start_list path_list);
          rel_list = replicate (length start_list - i) ''..'' @ drop i path_list
      in if rel_list = [] then ''.'' else foldl posix_join (hd rel_list) (tl rel_list))"

text \<open>
  The file system is a tree: a regular file with its content, or a directory
  with its entries in the order in which \<^verbatim>\<open>os.listdir\<close> and \<^verbatim>\<open>os.scandir\<close>
  report them. There are no links. \<open>node_at\<close> follows the components of a path
  from a node; \<open>path_components\<close> are the components of a path from the root.
\<close>

datatype node = File string | Dir "(string \<times> node) list"

fun is_dir :: "node \<Rightarrow> bool" where
  "is_dir (Dir children) = True"
| "is_dir (File content) = False"

fun node_at :: "node \<Rightarrow> string list \<Rightarrow> node option" where
  "node_at n [] = Some n"
| "node_at (File content) (c # cs) = None"
| "node_at (Dir children) (c # cs) =
     (case map_of children c of None \<Rightarrow> None | Some n \<Rightarrow> node_at n cs)"

definition path_components :: "string \<Rightarrow> string \<Rightarrow> string list" where
  "path_components cwd path =
     filter (\<lambda>x. x \<noteq> []) (split_on (CHR ''/'') (posix_abspath cwd path))"

text \<open>
  \<^verbatim>\<open>tar.add(name, arcname, recursive)\<close>, as the members it appends to the
  archive; the node is what the file system holds at \<^verbatim>\<open>name\<close>. The member's
  name is \<^verbatim>\<open>arcname.lstrip('/')\<close>. For a directory with \<^verbatim>\<open>recursive\<close> set (the
  default) \<^verbatim>\<open>tarfile\<close> goes on with
  \<^verbatim>\<open>for f in sorted(os.listdir(name)): self.add(os.path.join(name, f), os.path.join(arcname, f), recursive)\<close>.
\<close>

function tar_add :: "string \<Rightarrow> node \<Rightarrow> bool \<Rightarrow> tarinfo list" where
  "tar_add arcname (File content) recursive =
     [\<lparr>tar_name = dropWhile (\<lambda>c. c = CHR ''/'') arcname, tar_type = REGTYPE,
       tar_data = content\<rparr>]"
| "tar_add arcname (Dir children) recursive =
     \<lparr>tar_name = dropWhile (\<lambda>c. c = CHR ''/'') arcname, tar_type = DIRTYPE, tar_data = []\<rparr>
     # (if recursive
        then concat (map (\<lambda>(f, n). tar_add (posix_join arcname f) n recursive)
                       (sort_key fst children))
        else [])"
  by pat_completeness auto
termination
proof (relation "measure (\<lambda>(arcname, n, recursive). size n)")
  show "wf (measure (\<lambda>(arcname, n, recursive). size n))" by simp
next
  fix arcname :: string and children :: "(string \<times> node) list" and recursive :: bool
    and x :: "string \<times> node" and f :: string and n :: node
  assume "recursive" and x: "x \<in> set (sort_key fst children)" and e: "(f, n) = x"
  from x e have "(f, n) \<in> set children" by simp
  then have "size n < Suc (size_list (size_prod (\<lambda>x. 0) size) children)"
    by (induction children) auto
  then show "((posix_join arcname f, n, recursive), arcname, Dir children, recursive)
      \<in> measure (\<lambda>(arcname, n, recursive). size n)" by simp
qed

text \<open>
  \<^verbatim>\<open>os.walk(top)\<close>, top down: the triples \<^verbatim>\<open>(root, dirs, files)\<close>, in the order in
  which they are produced. Every name comes with the node it names, which
  stands for the look-up of \<^verbatim>\<open>os.path.join(root, name)\<close> in the file system.
  \<^verbatim>\<open>os.walk\<close> goes into every directory of \<^verbatim>\<open>dirs\<close>: the source does not prune
  the list.
\<close>

fun os_walk ::
  "string \<Rightarrow> node \<Rightarrow> (string \<times> (string \<times> node) list \<times> (string \<times> node) list) list" where
  "os_walk top_dir (File content) = []"
| "os_walk top_dir (Dir children) =
     (top_dir, filter (\<lambda>(name, n). is_dir n) children,
        filter (\<lambda>(name, n). \<not> is_dir n) children)
     # concat (map (\<lambda>(dirname, n). os_walk (posix_join top_dir dirname) n)
                 (filter (\<lambda>(name, n). is_dir n) children))"

text \<open>
  The body of the loop over \<^verbatim>\<open>os.walk(child_path)\<close>: the members added for one
  triple \<^verbatim>\<open>(root, dirs, files)\<close>.
\<close>

fun walk_members ::
  "string \<Rightarrow> string \<Rightarrow> string \<times> (string \<times> node) list \<times> (string \<times> node) list
     \<Rightarrow> tarinfo list" where
  "walk_members cwd mount (root_dir, dirs, files) =
     concat (map (\<lambda>(name, m).
       if startswith name ''.'' then []
       else
         let full_path = posix_join root_dir name;
             archive_name = posix_normpath (posix_relpath cwd full_path mount)
         in tar_add archive_name m True) (files @ dirs))"

text \<open>
  The body of the loop over \<^verbatim>\<open>os.listdir(mount)\<close>: the members added for one
  child of the mount.
\<close>

fun child_members :: "string \<Rightarrow> string \<Rightarrow> string \<times> node \<Rightarrow> tarinfo list" where
  "child_members cwd mount (child, n) =
     (if startswith child ''.'' then []
      else
        let child_path = posix_join mount child;
            archive_child = posix_normpath child
        in tar_add archive_child n False
           @ (if is_dir n then concat (map (walk_members cwd mount) (os_walk child_path n))
              else []))"

text \<open>
  \<open>generate_archive\<close> with the mount path given, on a POSIX platform. The result
  is the list of the members written to the archive, in the order of the
  \<^verbatim>\<open>tar.add\<close> calls, which is what \<^verbatim>\<open>getmembers()\<close> reads back from it. When the
  mount cannot be listed, \<^verbatim>\<open>os.listdir(mount)\<close> raises. Creating the backup
  directory, the time stamp in the name of the archive file, the printed line
  and the progress bar are not part of this model, and the archive file is
  taken to lie outside the mount.
\<close>

definition generate_archive :: "string \<Rightarrow> node \<Rightarrow> string \<Rightarrow> exn + tarinfo list" where
  "generate_archive cwd fs mount0 =
     (let mount = posix_normpath mount0
      in case node_at fs (path_components cwd mount) of
           None \<Rightarrow> Inl (Exn FileNotFoundError (''[Errno 2] No such file or directory: '' @ mount))
         | Some (File content) \<Rightarrow>
             Inl (Exn NotADirectoryError (''[Errno 20] Not a directory: '' @ mount))
         | Some (Dir children) \<Rightarrow> Inr (concat (map (child_members cwd mount) children)))"

text \<open>A name is hidden when one of its components begins with a dot.\<close>

definition hidden_name :: "string \<Rightarrow> bool" where
  "hidden_name name = list_ex (\<lambda>part. startswith part ''.'') (split_on (CHR ''/'') name)"

section \<open>commands/verify.py\<close>

text \<open>
  \<open>verify_backup_structure\<close>. The order in which Python iterates over a set of
  strings is not fixed by the language; it is the parameter \<open>iter\<close>. The
  result is the pair \<^verbatim>\<open>(is_valid, issues)\<close>. Only opening the archive and
  reading its members can raise inside the \<^verbatim>\<open>try\<close> block.
\<close>

definition required_dirs :: "string set" where
  "required_dirs = {''tape'', ''album'', ''synth'', ''drum''}"

definition verify_backup_structure ::
  "(string set \<Rightarrow> string list) \<Rightarrow> 'w os \<Rightarrow> 'w \<Rightarrow> string \<Rightarrow> bool \<times> string list" where
  "verify_backup_structure iter os w archive_path =
     (case tar_getmembers os w archive_path of
        Inl e \<Rightarrow> (False, [''Error reading backup archive: '' @ exn_str e])
      | Inr members \<Rightarrow>
          let found_dirs = set (map (\<lambda>member. hd (split_on (CHR ''/'') (tar_name member))) members);
              missing_dirs = required_dirs - found_dirs;
              issues1 =
                (if missing_dirs \<noteq> {} then
                   [''Missing required directories: '' @ join_with '', '' (iter missing_dirs)]
                 else []);
              issues2 =
                concat (map (\<lambda>required_dir.
                          if filter (\<lambda>m. startswith (tar_name m) required_dir) members = []
                          then [''Directory '' @ [CHR 0x27] @ required_dir @ [CHR 0x27] @ '' is empty'']
                          else [])
                        (iter (required_dirs - missing_dirs)));
              issues = issues1 @ issues2
          in (length issues = 0, issues))"

section \<open>A machine given by tables\<close>

text \<open>
  A concrete machine for the examples: the directories with their listings,
  the regular files, the outcome of the \<^verbatim>\<open>mount\<close> command and the archives with
  their members. \<open>table_os\<close> is the POSIX operating system over it.
\<close>

record machine =
  m_dirs :: "(string \<times> (exn + string list)) list"
  m_files :: "string list"
  m_mount :: "exn + completed_process"
  m_archives :: "(string \<times> tarinfo list) list"

definition table_os :: "machine os" where
  "table_os =
     \<lparr>platform_system = ''Linux'',
      environ_get = (\<lambda>k. None),
      normpath = posix_normpath,
      path_join = posix_join,
      listdir = (\<lambda>w p. case map_of (m_dirs w) p of
                          None \<Rightarrow> Inl (Exn (if p \<in> set (m_files w) then NotADirectoryError
                                            else FileNotFoundError) p)
                        | Some r \<Rightarrow> r),
      path_isdir = (\<lambda>w p. map_of (m_dirs w) p \<noteq> None),
      path_exists = (\<lambda>w p. p \<in> set (map fst (m_dirs w)) \<or> p \<in> set (m_files w)
                            \<or> p \<in> set (map fst (m_archives w))),
      run_mount = m_mount,
      GetLogicalDrives = (\<lambda>w. 0),
      GetDriveType = (\<lambda>w d. Inr 1),
      tar_getmembers = (\<lambda>w p. case map_of (m_archives w) p of
                                 None \<Rightarrow> Inl (Exn FileNotFoundError p)
                               | Some ms \<Rightarrow> Inr ms),
      tar_extract = (\<lambda>member mount w.
         let target = posix_join mount (tar_name member) in
         if tar_type member = DIRTYPE then
           (if target \<in> set (m_files w) then (Some (Exn FileExistsError target), w)
            else if map_of (m_dirs w) target \<noteq> None then (None, w)
            else (None, w\<lparr>m_dirs := m_dirs w @ [(target, Inr [])]\<rparr>))
         else
           (if map_of (m_dirs w) target \<noteq> None then (Some (Exn IsADirectoryError target), w)
            else (None, w\<lparr>m_files := target # m_files w\<rparr>)))\<rparr>"

text \<open>
  A machine with an OP-1 mounted at \<^verbatim>\<open>/Volumes/OP-1\<close>, an unreadable volume
  \<^verbatim>\<open>/Volumes/locked\<close> and an ordinary disk \<^verbatim>\<open>/Volumes/data\<close>.
\<close>

definition op1_listing :: "string list" where
  "op1_listing = [''.Trashes'', ''album'', ''drum'', ''notes.txt'', ''synth'', ''tape'', ''extra'']"

definition example_machine :: machine where
  "example_machine =
     \<lparr>m_dirs =
        [(''/Volumes/locked'', Inl (Exn PermissionError ''/Volumes/locked'')),
         (''/Volumes/data'', Inr [''music'', ''tape'']),
         (''/Volumes/data/music'', Inr []),
         (''/Volumes/data/tape'', Inr []),
         (''/Volumes/OP-1'', Inr op1_listing),
         (''/Volumes/OP-1/.Trashes'', Inr []),
         (''/Volumes/OP-1/album'', Inr []),
         (''/Volumes/OP-1/drum'', Inr []),
         (''/Volumes/OP-1/synth'', Inr []),
         (''/Volumes/OP-1/tape'', Inr []),
         (''/Volumes/OP-1/extra'', Inr [])],
      m_files = [''/Volumes/OP-1/notes.txt''],
      m_mount =
        Inr \<lparr>returncode = 0,
         stdout = Some (''/dev/disk1s1 on / (apfs, local, journaled)'' @ [CHR 0x0A]
                   @ ''/dev/disk3s1 on /Volumes/locked (msdos, local)'' @ [CHR 0x0A]
                   @ ''/dev/disk4s1 on /Volumes/data (msdos, local)'' @ [CHR 0x0A]
                   @ ''/dev/disk2s1 on /Volumes/OP-1 (msdos, local, nodev, nosuid)''
                   @ [CHR 0x0A])\<rparr>,
      m_archives = []\<rparr>"

text \<open>The same machine without a \<^verbatim>\<open>mount\<close> command that can be started.\<close>

definition no_mount_machine :: machine where
  "no_mount_machine =
     example_machine\<lparr>m_mount :=
       Inl (Exn FileNotFoundError ''[Errno 2] No such file or directory: mount'')\<rparr>"

text \<open>
  The same machine with a backup archive that has no \<^verbatim>\<open>drum\<close> directory.
\<close>

definition example_members :: "tarinfo list" where
  "example_members =
     [\<lparr>tar_name = ''tape'', tar_type = DIRTYPE, tar_data = []\<rparr>,
      \<lparr>tar_name = ''tape/track_1.aif'', tar_type = REGTYPE, tar_data = ''FORM''\<rparr>,
      \<lparr>tar_name = ''album'', tar_type = DIRTYPE, tar_data = []\<rparr>,
      \<lparr>tar_name = ''synth'', tar_type = DIRTYPE, tar_data = []\<rparr>]"

definition archive_machine :: machine where
  "archive_machine =
     example_machine\<lparr>m_archives :=
       [(''/home/u/opie/backups/b.tar.xz'', example_members),
        (''/home/u/opie/backups/c.tar.xz'', take 3 example_members)]\<rparr>"

text \<open>
  A file system with an OP-1 mounted at \<^verbatim>\<open>/Volumes/OP-1\<close>, after a stay on a
  Mac: the volume has a hidden directory at its top, a hidden directory
  \<^verbatim>\<open>drum/.cache\<close> and a hidden file \<^verbatim>\<open>synth/user/._lead.aif\<close>.
\<close>

definition example_device :: "(string \<times> node) list" where
  "example_device =
     [(''tape'', Dir [(''track_1.aif'', File ''FORM1'')]),
      (''album'', Dir [(''side_a.aif'', File ''FORM2'')]),
      (''synth'', Dir [(''user'', Dir [(''lead.aif'', File ''FORM3''),
                                       (''._lead.aif'', File ''Mac OS X'')])]),
      (''drum'', Dir [(''.cache'', Dir [(''kit.aif'', File ''FORM4'')])]),
      (''.Spotlight-V100'', Dir [(''store.db'', File ''db'')])]"

definition example_fs :: node where
  "example_fs =
     Dir [(''home'', Dir [(''u'', Dir [])]),
          (''Volumes'', Dir [(''OP-1'', Dir example_device)])]"

section \<open>The file system as the state of the machine\<close>














section \<open>helpers/backup\_metadata.py\<close>

text \<open>
  The object holds the path of its JSON file and the dictionary loaded from it.
  Writing the file is an effect on the disk that can fail; the outcome of the
  write is a parameter, and the function returns what it printed and what the
  file holds afterwards (\<open>None\<close>: the write failed and nothing is known).
\<close>

record backup_metadata =
  metadata_file :: string
  metadata :: "string \<rightharpoonup> pyval"

definition save_metadata ::
  "exn option \<Rightarrow> backup_metadata \<Rightarrow> string list \<times> (string \<rightharpoonup> pyval) option" where
  "save_metadata wr self =
     (case wr of
        None \<Rightarrow> ([], Some (metadata self))
      | Some e \<Rightarrow> ([''Warning: Could not save backup metadata: '' @ exn_str e], None))"

definition update_backup_metadata ::
  "exn option \<Rightarrow> backup_metadata \<Rightarrow> string \<Rightarrow> pyval
     \<Rightarrow> backup_metadata \<times> string list \<times> (string \<rightharpoonup> pyval) option" where
  "update_backup_metadata wr self backup_name md =
     (let self' = self\<lparr>metadata := (metadata self)(backup_name \<mapsto> md)\<rparr>
      in (self', save_metadata wr self'))"

definition get_backup_metadata :: "backup_metadata \<Rightarrow> string \<Rightarrow> pyval" where
  "get_backup_metadata self backup_name =
     (case metadata self backup_name of None \<Rightarrow> PyDict [] | Some v \<Rightarrow> v)"

section \<open>Properties of the metadata store\<close>

text \<open>
  C10. For every store, name \<open>n\<close> and value \<open>m\<close>, after
  \<open>update_backup_metadata n m\<close> the store maps \<open>n\<close> to \<open>m\<close>, whether or not the
  file could be written; every other name \<open>k\<close> keeps its entry and
  \<open>get_backup_metadata k\<close> returns what it returned before; and
  \<open>get_backup_metadata\<close> of a name that was never recorded returns the empty
  mapping.
\<close>

theorem update_backup_metadata_frame:
  "get_backup_metadata (fst (update_backup_metadata wr self n m)) n = m
   \<and> (\<forall>k. k \<noteq> n \<longrightarrow>
         metadata (fst (update_backup_metadata wr self n m)) k = metadata self k
         \<and> get_backup_metadata (fst (update_backup_metadata wr self n m)) k
             = get_backup_metadata self k)
   \<and> (\<forall>k. metadata self k = None \<longrightarrow> get_backup_metadata self k = PyDict [])"
  by (simp add: update_backup_metadata_def get_backup_metadata_def Let_def)

theorem update_backup_metadata_frame_witness:
  "get_backup_metadata
     (fst (update_backup_metadata None
        \<lparr>metadata_file = ''backup_metadata.json'',
         metadata = [''a.tar.xz'' \<mapsto> PyDict [(''sha256'', PyStr ''00'')]]\<rparr>
        ''b.tar.xz'' (PyDict [(''size_bytes'', PyInt 7)]))) ''a.tar.xz''
     = PyDict [(''sha256'', PyStr ''00'')]
   \<and> get_backup_metadata
     \<lparr>metadata_file = ''backup_metadata.json'',
      metadata = [''a.tar.xz'' \<mapsto> PyDict [(''sha256'', PyStr ''00'')]]\<rparr> ''c.tar.xz''
     = PyDict []"
  using update_backup_metadata_frame
    [of None "\<lparr>metadata_file = ''backup_metadata.json'',
         metadata = [''a.tar.xz'' \<mapsto> PyDict [(''sha256'', PyStr ''00'')]]\<rparr>"
        "''b.tar.xz''" "PyDict [(''size_bytes'', PyInt 7)]"]
  by (simp add: get_backup_metadata_def)

section \<open>Properties of device identification\<close>

lemma startswith_dot: "startswith (c # cs) ''.'' \<longleftrightarrow> c = CHR ''.''"
  by (auto simp: startswith_def)

lemma visible_filter_Inr:
  "[] \<notin> set names \<Longrightarrow> visible_filter names = Inr (filter (\<lambda>x. \<not> startswith x ''.'') names)"
  by (induction names) (auto simp: startswith_dot split: list.splits)

lemma visible_filter_Inl:
  "[] \<in> set names \<Longrightarrow> visible_filter names = Inl (Exn IndexError ''string index out of range'')"
  by (induction names) (auto split: list.splits sum.splits)

lemma get_visible_folders_Inr:
  "listdir os w d = Inr names \<Longrightarrow> [] \<notin> set names \<Longrightarrow>
   get_visible_folders os w d =
     Inr (filter (\<lambda>x. path_isdir os w (path_join os d x)) (filter (\<lambda>x. \<not> startswith x ''.'') names))"
  by (simp add: get_visible_folders_def get_visible_children_def visible_filter_Inr)

lemma get_visible_folders_Inl:
  "listdir os w d = Inr names \<Longrightarrow> [] \<in> set names \<Longrightarrow>
   \<exists>e. get_visible_folders os w d = Inl e"
  by (simp add: get_visible_folders_def get_visible_children_def visible_filter_Inl)

lemma get_visible_folders_err:
  "listdir os w d = Inl e \<Longrightarrow> get_visible_folders os w d = Inl e"
  by (simp add: get_visible_folders_def get_visible_children_def)

lemma is_op1_drive_Inl:
  "get_visible_folders os w (normpath os P) = Inl e \<Longrightarrow> \<not> snd (is_op1_drive os w P)"
  by (simp add: is_op1_drive_def Let_def)

lemma is_op1_drive_listed:
  assumes "listdir os w (normpath os P) = Inr names"
  shows "snd (is_op1_drive os w P) \<longleftrightarrow>
     [] \<notin> set names \<and>
     (\<forall>d \<in> OP1_BASE_DIRS. d \<in> set names \<and> \<not> startswith d ''.''
          \<and> path_isdir os w (path_join os (normpath os P) d))"
proof (cases "[] \<in> set names")
  case True
  then show ?thesis
    using get_visible_folders_Inl [OF assms True] is_op1_drive_Inl [of os w P] by auto
next
  case False
  then show ?thesis
    using get_visible_folders_Inr [OF assms False]
    by (auto simp: is_op1_drive_def Let_def)
qed

text \<open>
  C1. \<open>is_op1_drive P\<close> is true exactly when the normalised path can be listed,
  the listing holds no empty name, and each of the four names \<^verbatim>\<open>tape\<close>,
  \<^verbatim>\<open>album\<close>, \<^verbatim>\<open>synth\<close>, \<^verbatim>\<open>drum\<close> is listed, does not start with a dot and is a
  directory under the path. It is a subset test: a listing that has more names,
  with every earlier directory still a directory, keeps the result true.
\<close>

theorem is_op1_drive_iff:
  "(snd (is_op1_drive os w P) \<longleftrightarrow>
      (\<exists>names. listdir os w (normpath os P) = Inr names \<and> [] \<notin> set names \<and>
         (\<forall>d \<in> OP1_BASE_DIRS. d \<in> set names \<and> \<not> startswith d ''.''
              \<and> path_isdir os w (path_join os (normpath os P) d))))
   \<and> (snd (is_op1_drive os w P) \<and> listdir os w (normpath os P) = Inr names
        \<and> listdir os w' (normpath os P) = Inr names'
        \<and> set names \<subseteq> set names' \<and> [] \<notin> set names'
        \<and> (\<forall>x \<in> set names. path_isdir os w (path_join os (normpath os P) x)
               \<longrightarrow> path_isdir os w' (path_join os (normpath os P) x))
      \<longrightarrow> snd (is_op1_drive os w' P))"
proof (intro conjI impI)
  show "snd (is_op1_drive os w P) \<longleftrightarrow>
      (\<exists>names. listdir os w (normpath os P) = Inr names \<and> [] \<notin> set names \<and>
         (\<forall>d \<in> OP1_BASE_DIRS. d \<in> set names \<and> \<not> startswith d ''.''
              \<and> path_isdir os w (path_join os (normpath os P) d)))"
  proof (cases "listdir os w (normpath os P)")
    case (Inl e)
    then show ?thesis
      using get_visible_folders_err [OF Inl] is_op1_drive_Inl [of os w P] by simp
  next
    case (Inr ns)
    then show ?thesis using is_op1_drive_listed [OF Inr] by simp
  qed
next
  assume a: "snd (is_op1_drive os w P) \<and> listdir os w (normpath os P) = Inr names
        \<and> listdir os w' (normpath os P) = Inr names'
        \<and> set names \<subseteq> set names' \<and> [] \<notin> set names'
        \<and> (\<forall>x \<in> set names. path_isdir os w (path_join os (normpath os P) x)
               \<longrightarrow> path_isdir os w' (path_join os (normpath os P) x))"
  then have l: "listdir os w (normpath os P) = Inr names"
    and l': "listdir os w' (normpath os P) = Inr names'" by simp_all
  from a show "snd (is_op1_drive os w' P)"
    unfolding is_op1_drive_listed [OF l] is_op1_drive_listed [OF l'] by blast
qed

theorem is_op1_drive_iff_witness:
  "snd (is_op1_drive table_os example_machine ''/Volumes/OP-1/'')
   \<and> \<not> snd (is_op1_drive table_os example_machine ''/Volumes/data'')"
proof
  have l: "listdir table_os example_machine (normpath table_os ''/Volumes/OP-1/'') = Inr op1_listing"
    by code_simp
  have e: "[] \<notin> set op1_listing" by code_simp
  have d: "\<forall>d \<in> OP1_BASE_DIRS. d \<in> set op1_listing \<and> \<not> startswith d ''.''
      \<and> path_isdir table_os example_machine
           (path_join table_os (normpath table_os ''/Volumes/OP-1/'') d)"
    by code_simp
  have "\<exists>names. listdir table_os example_machine (normpath table_os ''/Volumes/OP-1/'') = Inr names
      \<and> [] \<notin> set names
      \<and> (\<forall>d \<in> OP1_BASE_DIRS. d \<in> set names \<and> \<not> startswith d ''.''
           \<and> path_isdir table_os example_machine
                (path_join table_os (normpath table_os ''/Volumes/OP-1/'') d))"
    using l e d by (intro exI [of _ op1_listing] conjI)
  then show "snd (is_op1_drive table_os example_machine ''/Volumes/OP-1/'')"
    using conjunct1 [OF is_op1_drive_iff [of table_os example_machine "''/Volumes/OP-1/''"]]
    by (rule_tac iffD2)
next
  have l: "listdir table_os example_machine (normpath table_os ''/Volumes/data'')
             = Inr [''music'', ''tape'']"
    by code_simp
  have m: "''album'' \<in> OP1_BASE_DIRS" "''album'' \<notin> set [''music'', ''tape'']"
    by (simp_all add: OP1_BASE_DIRS_def)
  show "\<not> snd (is_op1_drive table_os example_machine ''/Volumes/data'')"
  proof
    assume a: "snd (is_op1_drive table_os example_machine ''/Volumes/data'')"
    have "\<exists>names. listdir table_os example_machine (normpath table_os ''/Volumes/data'') = Inr names
      \<and> [] \<notin> set names
      \<and> (\<forall>d \<in> OP1_BASE_DIRS. d \<in> set names \<and> \<not> startswith d ''.''
           \<and> path_isdir table_os example_machine
                (path_join table_os (normpath table_os ''/Volumes/data'') d))"
      using a conjunct1 [OF is_op1_drive_iff [of table_os example_machine "''/Volumes/data''"]]
      by (rule_tac iffD1)
    then obtain names where
      n: "listdir table_os example_machine (normpath table_os ''/Volumes/data'') = Inr names"
      and b: "\<forall>d \<in> OP1_BASE_DIRS. d \<in> set names" by blast
    from n l have "names = [''music'', ''tape'']" by simp
    with b m show False by blast
  qed
qed

section \<open>Properties of the device locator\<close>

lemma first_op1_drive_find:
  "snd (first_op1_drive os w ps) = List.find (\<lambda>p. snd (is_op1_drive os w p)) ps"
  by (induction ps) (auto split: prod.splits bool.splits)

text \<open>
  When the mount query completes (or on Windows, where there is none),
  \<open>find_op1_mount\<close> raises nothing and returns the first path, in the order of
  the enumeration (the removable drives on Windows, the mount paths of
  \<open>get_potential_mounts\<close> elsewhere), that \<open>is_op1_drive\<close> accepts, and \<open>None\<close>
  when there is none or the enumeration gave nothing. A volume whose listing
  raises is passed over and the volumes after it are still tested.
\<close>

lemma find_op1_mount_completed:
  "(platform_system os = ''Windows'' \<or> (\<exists>result. run_mount os w = Inr result)) \<longrightarrow>
     snd (find_op1_mount os w) =
       Inr (List.find (\<lambda>p. snd (is_op1_drive os w p))
         (if platform_system os = ''Windows'' then get_removable_drives os w
          else (case snd (get_potential_mounts os w) of
                  Inr (Some mounts) \<Rightarrow> map snd mounts
                | _ \<Rightarrow> [])))"
  by (auto simp: find_op1_mount_def get_potential_mounts_def Let_def
        first_op1_drive_find [symmetric]
      split: prod.splits option.splits sum.splits)

lemma first_op1_drive_skips_error:
  assumes "listdir os w (normpath os p) = Inl e"
  shows "snd (first_op1_drive os w (p # ps)) = snd (first_op1_drive os w ps)"
proof -
  have "\<not> snd (is_op1_drive os w p)"
    using assms get_visible_folders_err is_op1_drive_Inl by metis
  then show ?thesis by (auto split: prod.splits bool.splits)
qed

lemma find_op1_mount_example:
  "snd (find_op1_mount table_os example_machine) = Inr (Some ''/Volumes/OP-1'')"
  by code_simp

text \<open>
  C9. The claim says that \<open>find_op1_mount\<close> never throws. On a machine where
  the \<^verbatim>\<open>mount\<close> command cannot be started, \<^verbatim>\<open>subprocess.run\<close> raises
  FileNotFoundError, and \<open>find_op1_mount\<close> passes the exception on to its
  caller.
\<close>

theorem find_op1_mount_raises:
  "run_mount table_os no_mount_machine
     = Inl (Exn FileNotFoundError ''[Errno 2] No such file or directory: mount'')
   \<and> find_op1_mount table_os no_mount_machine
     = ([], Inl (Exn FileNotFoundError ''[Errno 2] No such file or directory: mount''))"
  by code_simp

section \<open>Properties of mount enumeration\<close>

text \<open>
  C8, as the source has it. On a platform other than Windows, when the
  \<^verbatim>\<open>mount\<close> command has run and exits with a non-zero status, or its output
  is absent, \<open>get_potential_mounts\<close> prints one diagnostic line and returns
  \<open>None\<close>, not an empty list, and raises nothing (the result is \<open>Inr\<close>). When
  the command succeeds with empty output, it returns the empty list and
  prints nothing.
\<close>

theorem get_potential_mounts_failure:
  "platform_system os \<noteq> ''Windows'' \<Longrightarrow> run_mount os w = Inr result \<Longrightarrow>
   (returncode result \<noteq> 0
      \<longrightarrow> get_potential_mounts os w = ([''mount command appeared to fail''], Inr None))
   \<and> (returncode result = 0 \<and> stdout result = None
      \<longrightarrow> get_potential_mounts os w = ([''uh oh''], Inr None))
   \<and> (returncode result = 0 \<and> stdout result = Some []
      \<longrightarrow> get_potential_mounts os w = ([], Inr (Some [])))"
  by (auto simp: get_potential_mounts_def Let_def get_mount_from_line_def startswith_def)

theorem get_potential_mounts_failure_witness:
  "get_potential_mounts table_os
       (example_machine\<lparr>m_mount := Inr \<lparr>returncode = 1, stdout = Some []\<rparr>\<rparr>)
     = ([''mount command appeared to fail''], Inr None)
   \<and> get_potential_mounts table_os
       (example_machine\<lparr>m_mount := Inr \<lparr>returncode = 0, stdout = None\<rparr>\<rparr>)
     = ([''uh oh''], Inr None)
   \<and> get_potential_mounts table_os
       (example_machine\<lparr>m_mount := Inr \<lparr>returncode = 0, stdout = Some []\<rparr>\<rparr>)
     = ([], Inr (Some []))"
proof -
  have p: "platform_system table_os \<noteq> ''Windows''" by code_simp
  have r: "\<And>m c. run_mount table_os (m\<lparr>m_mount := Inr c\<rparr>) = Inr c"
    by (simp add: table_os_def)
  show ?thesis
    using get_potential_mounts_failure [OF p r, of "\<lparr>returncode = 1, stdout = Some []\<rparr>" example_machine]
      get_potential_mounts_failure [OF p r, of "\<lparr>returncode = 0, stdout = None\<rparr>" example_machine]
      get_potential_mounts_failure [OF p r, of "\<lparr>returncode = 0, stdout = Some []\<rparr>" example_machine]
    by simp
qed

text \<open>
  The claim C8 as stated fails: with exit status 1 the result is \<open>None\<close>, which is
  not the empty list.
\<close>

theorem get_potential_mounts_empty_counterexample:
  "run_mount table_os (example_machine\<lparr>m_mount := Inr \<lparr>returncode = 1, stdout = Some []\<rparr>\<rparr>)
     = Inr \<lparr>returncode = 1, stdout = Some []\<rparr>
   \<and> snd (get_potential_mounts table_os
           (example_machine\<lparr>m_mount := Inr \<lparr>returncode = 1, stdout = Some []\<rparr>\<rparr>)) = Inr None
   \<and> snd (get_potential_mounts table_os
           (example_machine\<lparr>m_mount := Inr \<lparr>returncode = 1, stdout = Some []\<rparr>\<rparr>))
       \<noteq> Inr (Some [])"
  by code_simp

text \<open>
  C7. The line of a Linux mount table
  \<^verbatim>\<open>/dev/sda1 on /mnt/usb type vfat (rw,relatime)\<close> parses to the mount path
  \<^verbatim>\<open>/mnt/usb type vfat\<close>: the greedy mount group takes the \<^verbatim>\<open> type\<close> marker
  with it, since the group \<^verbatim>\<open>(type .*)?\<close> after it may match nothing. The line
  of the claim, which has no \<^verbatim>\<open> type\<close> marker, parses as the claim says.
\<close>

theorem get_mount_from_line_type_marker:
  "get_mount_from_line ''/dev/sda1 on /mnt/usb type vfat (rw,relatime)''
     = Some (''/dev/sda1'', ''/mnt/usb type vfat'')
   \<and> get_mount_from_line ''/dev/disk2s1 on /Volumes/OP-1 (msdos, local, nodev, nosuid)''
     = Some (''/dev/disk2s1'', ''/Volumes/OP-1'')"
  by code_simp

section \<open>Properties of the archive verifier\<close>

lemma split_on_hd_prefix: "prefix (hd (split_on c s)) s"
  by (induction s) (auto split: list.splits)

lemma iter_singleton:
  assumes "set xs = {d}" "distinct xs"
  shows "xs = [d]"
proof (cases xs)
  case Nil
  with assms show ?thesis by simp
next
  case (Cons a as)
  with assms have a: "a = d" by auto
  have "as = []"
  proof (cases as)
    case Nil then show ?thesis .
  next
    case (Cons b bs)
    with assms \<open>xs = a # as\<close> have "b \<in> {d}" "b \<noteq> a" by auto
    with a show ?thesis by simp
  qed
  with a Cons show ?thesis by simp
qed

lemma no_empty_required:
  assumes "rd \<in> set (map (\<lambda>member. hd (split_on (CHR ''/'') (tar_name member))) members)"
  shows "filter (\<lambda>m. startswith (tar_name m) rd) members \<noteq> []"
proof -
  from assms obtain m where m: "m \<in> set members" "rd = hd (split_on (CHR ''/'') (tar_name m))"
    by auto
  then have "startswith (tar_name m) rd"
    by (simp add: startswith_def split_on_hd_prefix)
  with m(1) show ?thesis by (auto simp: filter_empty_conv)
qed

lemma issues2_empty:
  assumes "set rs \<subseteq> set (map (\<lambda>member. hd (split_on (CHR ''/'') (tar_name member))) members)"
  shows "concat (map (\<lambda>required_dir.
            if filter (\<lambda>m. startswith (tar_name m) required_dir) members = []
            then [''Directory '' @ [CHR 0x27] @ required_dir @ [CHR 0x27] @ '' is empty'']
            else []) rs) = []"
  using assms
proof (induction rs)
  case Nil
  then show ?case by simp
next
  case (Cons r rs)
  then have "filter (\<lambda>m. startswith (tar_name m) r) members \<noteq> []"
    using no_empty_required [of r members] by simp
  with Cons show ?case by simp
qed

lemma finite_required_dirs: "finite required_dirs"
  by (simp add: required_dirs_def)

text \<open>
  C6. When the archive can be read and exactly one required directory \<open>d\<close> is
  missing from the top-level path segments of its members,
  \<open>verify_backup_structure\<close> returns \<open>False\<close> with the single issue that names
  \<open>d\<close>, whatever order Python iterates its sets in. For every input, the
  result is valid exactly when the list of issues is empty.
\<close>

theorem verify_backup_structure_missing_one:
  "((\<forall>S. finite S \<longrightarrow> set (iter S) = S \<and> distinct (iter S))
     \<and> tar_getmembers os w archive_path = Inr members
     \<and> required_dirs - set (map (\<lambda>member. hd (split_on (CHR ''/'') (tar_name member))) members) = {d}
    \<longrightarrow> verify_backup_structure iter os w archive_path
          = (False, [''Missing required directories: '' @ d]))
   \<and> (fst (verify_backup_structure iter os w archive_path)
        \<longleftrightarrow> snd (verify_backup_structure iter os w archive_path) = [])"
proof (intro conjI impI)
  assume a: "(\<forall>S. finite S \<longrightarrow> set (iter S) = S \<and> distinct (iter S))
     \<and> tar_getmembers os w archive_path = Inr members
     \<and> required_dirs - set (map (\<lambda>member. hd (split_on (CHR ''/'') (tar_name member))) members) = {d}"
  let ?found = "set (map (\<lambda>member. hd (split_on (CHR ''/'') (tar_name member))) members)"
  from a have it: "\<And>S. finite S \<Longrightarrow> set (iter S) = S \<and> distinct (iter S)"
    and g: "tar_getmembers os w archive_path = Inr members"
    and m: "required_dirs - ?found = {d}" by auto
  have i1: "iter {d} = [d]"
    using it [of "{d}"] iter_singleton by auto
  have "set (iter (required_dirs - {d})) = required_dirs - {d}"
    using it [of "required_dirs - {d}"] finite_required_dirs by simp
  also have "\<dots> \<subseteq> ?found" using m by blast
  finally have i2: "set (iter (required_dirs - {d})) \<subseteq> ?found" .
  show "verify_backup_structure iter os w archive_path
          = (False, [''Missing required directories: '' @ d])"
    unfolding verify_backup_structure_def Let_def g
    by (simp add: m i1 issues2_empty [OF i2] del: set_map)
next
  show "fst (verify_backup_structure iter os w archive_path)
        \<longleftrightarrow> snd (verify_backup_structure iter os w archive_path) = []"
    by (simp add: verify_backup_structure_def Let_def split: sum.splits)
qed

theorem verify_backup_structure_missing_one_witness:
  "verify_backup_structure sorted_list_of_set table_os archive_machine ''/home/u/opie/backups/b.tar.xz''
     = (False, [''Missing required directories: drum''])"
proof -
  have i: "\<forall>S::string set. finite S \<longrightarrow>
      set (sorted_list_of_set S) = S \<and> distinct (sorted_list_of_set S)"
    by simp
  have g: "tar_getmembers table_os archive_machine ''/home/u/opie/backups/b.tar.xz''
      = Inr example_members"
    by code_simp
  have m: "required_dirs
      - set (map (\<lambda>member. hd (split_on (CHR ''/'') (tar_name member))) example_members)
      = {''drum''}"
    by code_simp
  from i g m have "(\<forall>S::string set. finite S \<longrightarrow>
      set (sorted_list_of_set S) = S \<and> distinct (sorted_list_of_set S))
     \<and> tar_getmembers table_os archive_machine ''/home/u/opie/backups/b.tar.xz''
         = Inr example_members
     \<and> required_dirs
        - set (map (\<lambda>member. hd (split_on (CHR ''/'') (tar_name member))) example_members)
        = {''drum''}"
    by (intro conjI)
  then have "verify_backup_structure sorted_list_of_set table_os archive_machine
        ''/home/u/opie/backups/b.tar.xz''
     = (False, [''Missing required directories: '' @ ''drum''])"
    using conjunct1 [OF verify_backup_structure_missing_one
        [of sorted_list_of_set table_os archive_machine "''/home/u/opie/backups/b.tar.xz''"
            example_members "''drum''"]]
    by (rule_tac mp)
  then show ?thesis by simp
qed

section \<open>Properties of the archive restorer\<close>

lemma is_valid_mount_iff:
  "snd (is_valid_mount os w m)
     \<longleftrightarrow> path_exists os w (normpath os m) \<and> snd (is_op1_drive os w (normpath os m))"
  by (simp add: is_valid_mount_def Let_def)

text \<open>
  C4. \<open>restore_archive\<close> raises FileNotFoundError when the normalised archive
  path does not exist, and ValueError when the archive exists and the mount
  path fails \<open>is_valid_mount\<close>, which is the existence of the path together
  with the fingerprint test \<open>is_op1_drive\<close>. In both cases the state of the
  machine is the one before the call and the callback was not invoked.
\<close>

theorem restore_archive_refused:
  "(\<not> path_exists os w (normpath os archive_path) \<longrightarrow>
      raised (restore_archive os w archive_path mount cb)
        = Some (Exn FileNotFoundError (''Backup file not found: '' @ normpath os archive_path))
      \<and> machine_after (restore_archive os w archive_path mount cb) = w
      \<and> progress_calls (restore_archive os w archive_path mount cb) = [])
   \<and> (path_exists os w (normpath os archive_path)
        \<and> \<not> snd (is_valid_mount os w (normpath os mount)) \<longrightarrow>
      raised (restore_archive os w archive_path mount cb)
        = Some (Exn ValueError (''Invalid mount point: '' @ normpath os mount))
      \<and> machine_after (restore_archive os w archive_path mount cb) = w
      \<and> progress_calls (restore_archive os w archive_path mount cb) = [])
   \<and> (snd (is_valid_mount os w m)
        \<longleftrightarrow> path_exists os w (normpath os m) \<and> snd (is_op1_drive os w (normpath os m)))"
proof (intro conjI impI)
  assume "\<not> path_exists os w (normpath os archive_path)"
  then show "raised (restore_archive os w archive_path mount cb)
        = Some (Exn FileNotFoundError (''Backup file not found: '' @ normpath os archive_path))"
    and "machine_after (restore_archive os w archive_path mount cb) = w"
    and "progress_calls (restore_archive os w archive_path mount cb) = []"
    by (simp_all add: restore_archive_def Let_def)
next
  assume a: "path_exists os w (normpath os archive_path)
        \<and> \<not> snd (is_valid_mount os w (normpath os mount))"
  then obtain out where o: "is_valid_mount os w (normpath os mount) = (out, False)"
    by (cases "is_valid_mount os w (normpath os mount)") auto
  from a o show "raised (restore_archive os w archive_path mount cb)
        = Some (Exn ValueError (''Invalid mount point: '' @ normpath os mount))"
    and "machine_after (restore_archive os w archive_path mount cb) = w"
    and "progress_calls (restore_archive os w archive_path mount cb) = []"
    by (simp_all add: restore_archive_def Let_def)
next
  show "snd (is_valid_mount os w m)
        \<longleftrightarrow> path_exists os w (normpath os m) \<and> snd (is_op1_drive os w (normpath os m))"
    by (rule is_valid_mount_iff)
qed

theorem restore_archive_refused_witness:
  "raised (restore_archive table_os archive_machine ''/home/u/opie/backups/none.tar.xz''
             ''/Volumes/OP-1'' True)
     = Some (Exn FileNotFoundError ''Backup file not found: /home/u/opie/backups/none.tar.xz'')
   \<and> machine_after (restore_archive table_os archive_machine ''/home/u/opie/backups/none.tar.xz''
             ''/Volumes/OP-1'' True) = archive_machine
   \<and> raised (restore_archive table_os archive_machine ''/home/u/opie/backups/b.tar.xz''
             ''/Volumes/data'' True)
     = Some (Exn ValueError ''Invalid mount point: /Volumes/data'')
   \<and> machine_after (restore_archive table_os archive_machine ''/home/u/opie/backups/b.tar.xz''
             ''/Volumes/data'' True) = archive_machine"
proof -
  have n1: "normpath table_os ''/home/u/opie/backups/none.tar.xz''
      = ''/home/u/opie/backups/none.tar.xz''"
    and n2: "normpath table_os ''/home/u/opie/backups/b.tar.xz'' = ''/home/u/opie/backups/b.tar.xz''"
    and n3: "normpath table_os ''/Volumes/data'' = ''/Volumes/data''"
    by code_simp+
  have a: "\<not> path_exists table_os archive_machine
      (normpath table_os ''/home/u/opie/backups/none.tar.xz'')"
    by code_simp
  have b: "path_exists table_os archive_machine (normpath table_os ''/home/u/opie/backups/b.tar.xz'')
      \<and> \<not> snd (is_valid_mount table_os archive_machine (normpath table_os ''/Volumes/data''))"
    by code_simp
  note t1 = restore_archive_refused
      [of table_os archive_machine "''/home/u/opie/backups/none.tar.xz''" "''/Volumes/OP-1''" True]
  note t2 = restore_archive_refused
      [of table_os archive_machine "''/home/u/opie/backups/b.tar.xz''" "''/Volumes/data''" True]
  from mp [OF conjunct1 [OF t1] a] mp [OF conjunct1 [OF conjunct2 [OF t2]] b]
  show ?thesis by (simp add: n1 n2 n3)
qed


section \<open>Properties of the float arithmetic\<close>

lemma pow2_powi: "pow2 e = 2 powi e"
  by (simp add: pow2_def power_int_def field_simps)

lemma pow2_pos: "0 < pow2 e"
  by (simp add: pow2_powi)

lemma pow2_add: "pow2 (a + b) = pow2 a * pow2 b"
  by (simp add: pow2_powi power_int_add)

lemma pow2_mono: "a \<le> b \<Longrightarrow> pow2 a \<le> pow2 b"
  by (simp add: pow2_powi power_int_increasing)

lemma pow2_less_imp: "pow2 a < pow2 b \<Longrightarrow> a < b"
  using pow2_mono [of b a] by (cases "a < b") auto

lemma pow2_nat: "0 \<le> e \<Longrightarrow> pow2 e = of_int (2 ^ nat e)"
  by (simp add: pow2_def)

lemma bit_length_0: "bit_length 0 = 0"
  by (subst bit_length.simps) simp

lemma bit_length_rec: "0 < n \<Longrightarrow> bit_length n = 1 + bit_length (n div 2)"
  by (subst bit_length.simps) simp

lemma div2_bounds: "(2::int) * (n div 2) \<le> n" "n \<le> 2 * (n div 2) + 1" by presburger+

lemma bit_length_one: "n = 1 \<Longrightarrow> 1 \<le> bit_length n \<and> 2 ^ nat (bit_length n - 1) \<le> n \<and> n < 2 ^ nat (bit_length n)"
  by (simp add: bit_length_rec bit_length_0)

lemma bit_length_step:
  fixes n b :: int
  assumes "1 \<le> b" "2 ^ nat (b - 1) \<le> n div 2" "n div 2 < 2 ^ nat b"
  shows "2 ^ nat (1 + b - 1) \<le> n \<and> n < 2 ^ nat (1 + b)"
proof -
  have e: "nat b = Suc (nat (b - 1))"
    using assms(1) by linarith
  have e2: "nat (1 + b) = Suc (nat b)"
    using assms(1) by linarith
  have p: "(2::int) ^ nat b = 2 * 2 ^ nat (b - 1)"
    by (subst e) simp
  have le: "(2::int) * 2 ^ nat (b - 1) \<le> n" using assms(2) div2_bounds(1) [of n] by linarith
  have "n div 2 + 1 \<le> 2 ^ nat b" using assms(3) by linarith
  then have lt: "n < (2::int) * 2 ^ nat b" using div2_bounds(2) [of n] by linarith
  have "(2::int) ^ nat (1 + b - 1) \<le> n" using le p by simp
  moreover have "n < 2 ^ nat (1 + b)" using lt by (simp add: e2)
  ultimately show ?thesis ..
qed

lemma bit_length_bounds:
  "0 < n \<Longrightarrow> 1 \<le> bit_length n \<and> 2 ^ nat (bit_length n - 1) \<le> n \<and> n < 2 ^ nat (bit_length n)"
proof (induction "nat n" arbitrary: n rule: less_induct)
  case less
  show ?case
  proof (cases "n div 2 = 0")
    case True
    with div2_bounds [of n] less.prems have "n = 1" by linarith
    then show ?thesis by (rule bit_length_one)
  next
    case False
    with div2_bounds [of n] less.prems have p: "0 < n div 2" by linarith
    have "nat (n div 2) < nat n" using div2_bounds [of n] p by linarith
    from less.hyps [OF this p]
    have ih: "1 \<le> bit_length (n div 2) \<and>
      2 ^ nat (bit_length (n div 2) - 1) \<le> n div 2 \<and>
      n div 2 < 2 ^ nat (bit_length (n div 2))" .
    have b: "bit_length n = 1 + bit_length (n div 2)"
      using less.prems by (rule bit_length_rec)
    have c: "1 \<le> 1 + bit_length (n div 2)" using conjunct1 [OF ih] by linarith
    note step = bit_length_step [OF conjunct1 [OF ih] conjunct1 [OF conjunct2 [OF ih]] conjunct2 [OF conjunct2 [OF ih]]]
    show ?thesis unfolding b using c step by (rule conjI)
  qed
qed

lemma bit_length_pow2:
  assumes "0 < n"
  shows "pow2 (bit_length n - 1) \<le> of_int n" "of_int n < pow2 (bit_length n)"
proof -
  from bit_length_bounds [OF assms]
  have b: "1 \<le> bit_length n" "2 ^ nat (bit_length n - 1) \<le> n" "n < 2 ^ nat (bit_length n)"
    by auto
  have "(of_int (2 ^ nat (bit_length n - 1)) :: rat) \<le> of_int n"
    using b(2) by (simp only: of_int_le_iff)
  then show "pow2 (bit_length n - 1) \<le> of_int n"
    using b(1) by (simp add: pow2_nat)
  have "(of_int n :: rat) < of_int (2 ^ nat (bit_length n))"
    using b(3) by (simp only: of_int_less_iff)
  then show "of_int n < pow2 (bit_length n)"
    using b(1) by (simp add: pow2_nat)
qed

lemma floor_log2_bounds:
  assumes "0 < x"
  shows "pow2 (floor_log2 x) \<le> x" "x < pow2 (floor_log2 x + 1)"
proof -
  obtain p q where pq: "quotient_of x = (p, q)" by (cases "quotient_of x")
  then have q: "0 < q" and x: "x = of_int p / of_int q"
    using quotient_of_denom_pos quotient_of_div by auto
  from assms x q have p: "0 < p" by (simp add: zero_less_divide_iff)
  let ?k = "bit_length p - bit_length q"
  have qr: "(0::rat) < of_int q" using q by simp
  have up: "x < pow2 (?k + 1)"
  proof -
    have "of_int p < pow2 (bit_length p)" using bit_length_pow2 [OF p] by simp
    also have "\<dots> = pow2 (?k + 1) * pow2 (bit_length q - 1)"
      by (simp add: pow2_add [symmetric])
    also have "\<dots> \<le> pow2 (?k + 1) * of_int q"
      using bit_length_pow2(1) [OF q] pow2_pos [of "?k + 1"] by simp
    finally show ?thesis using qr by (simp add: x pos_divide_less_eq)
  qed
  have lo: "pow2 (?k - 1) < x"
  proof -
    have "pow2 (?k - 1) * of_int q < pow2 (?k - 1) * pow2 (bit_length q)"
      using bit_length_pow2(2) [OF q] pow2_pos [of "?k - 1"] by simp
    also have "\<dots> = pow2 (bit_length p - 1)"
      by (simp add: pow2_add [symmetric])
    also have "\<dots> \<le> of_int p" using bit_length_pow2 [OF p] by simp
    finally show ?thesis using qr by (simp add: x pos_less_divide_eq)
  qed
  show "pow2 (floor_log2 x) \<le> x"
    using lo by (auto simp: floor_log2_def pq Let_def)
  show "x < pow2 (floor_log2 x + 1)"
    using up by (auto simp: floor_log2_def pq Let_def not_le)
qed

lemma floor_log2_mono:
  assumes "0 < x" "x \<le> y"
  shows "floor_log2 x \<le> floor_log2 y"
proof -
  have "pow2 (floor_log2 x) \<le> x" using floor_log2_bounds [OF assms(1)] by simp
  also have "\<dots> \<le> y" by fact
  also have "\<dots> < pow2 (floor_log2 y + 1)" using floor_log2_bounds [of y] assms by simp
  finally show ?thesis using pow2_less_imp by fastforce
qed

lemma round_half_even_bounds: "\<lfloor>x\<rfloor> \<le> round_half_even x" "round_half_even x \<le> \<lfloor>x\<rfloor> + 1"
  by (simp_all add: round_half_even_def Let_def)

lemma round_half_even_of_int: "round_half_even (of_int n) = n"
  by (simp add: round_half_even_def Let_def)

lemma round_half_even_mono:
  assumes "x \<le> y"
  shows "round_half_even x \<le> round_half_even y"
proof (cases "\<lfloor>x\<rfloor> < \<lfloor>y\<rfloor>")
  case True
  have "round_half_even x \<le> \<lfloor>x\<rfloor> + 1" by (rule round_half_even_bounds)
  also have "\<dots> \<le> \<lfloor>y\<rfloor>" using True by simp
  also have "\<dots> \<le> round_half_even y" by (rule round_half_even_bounds)
  finally show ?thesis .
next
  case False
  with floor_mono [OF assms] have f: "\<lfloor>y\<rfloor> = \<lfloor>x\<rfloor>" by simp
  have "x - of_int \<lfloor>x\<rfloor> \<le> y - of_int \<lfloor>x\<rfloor>" using assms by simp
  then show ?thesis
    by (auto simp: round_half_even_def Let_def f)
qed

lemma round_half_even_ge: "of_int n \<le> x \<Longrightarrow> n \<le> round_half_even x"
  using round_half_even_mono [of "of_int n" x] by (simp add: round_half_even_of_int)

lemma round_half_even_le: "x \<le> of_int n \<Longrightarrow> round_half_even x \<le> n"
  using round_half_even_mono [of x "of_int n"] by (simp add: round_half_even_of_int)

lemma pow2_diff: "pow2 a / pow2 b = pow2 (a - b)"
proof -
  have "pow2 a = pow2 (a - b) * pow2 b" by (simp add: pow2_add [symmetric])
  then show ?thesis using pow2_pos [of b] by simp
qed

lemma scaled_range:
  assumes "0 < x"
  shows "pow2 52 \<le> x / pow2 (floor_log2 x - 52)" "x / pow2 (floor_log2 x - 52) < pow2 53"
proof -
  let ?e = "floor_log2 x - 52"
  have "pow2 52 = pow2 (floor_log2 x) / pow2 ?e" by (simp add: pow2_diff)
  also have "\<dots> \<le> x / pow2 ?e"
    using floor_log2_bounds(1) [OF assms] pow2_pos [of ?e] by (simp add: divide_right_mono)
  finally show "pow2 52 \<le> x / pow2 ?e" .
  have "x / pow2 ?e < pow2 (floor_log2 x + 1) / pow2 ?e"
    using floor_log2_bounds(2) [OF assms] pow2_pos [of ?e] by (simp add: divide_strict_right_mono)
  also have "\<dots> = pow2 53" by (simp add: pow2_diff)
  finally show "x / pow2 ?e < pow2 53" .
qed

lemma pow2_52: "pow2 52 = of_int (2 ^ 52)"
  by (simp add: pow2_def)

lemma pow2_53: "pow2 53 = of_int (2 ^ 53)"
  by (simp add: pow2_def)

lemma mantissa_range:
  assumes "0 < x"
  shows "2 ^ 52 \<le> round_half_even (x / pow2 (floor_log2 x - 52))"
    "round_half_even (x / pow2 (floor_log2 x - 52)) \<le> 2 ^ 53"
proof -
  show "2 ^ 52 \<le> round_half_even (x / pow2 (floor_log2 x - 52))"
    using scaled_range(1) [OF assms] unfolding pow2_52 by (rule round_half_even_ge)
  have "x / pow2 (floor_log2 x - 52) \<le> of_int (2 ^ 53)"
    using scaled_range(2) [OF assms] unfolding pow2_53 by simp
  then show "round_half_even (x / pow2 (floor_log2 x - 52)) \<le> 2 ^ 53"
    by (rule round_half_even_le)
qed

lemma double_round_pos:
  "0 < x \<Longrightarrow> double_round x
     = of_int (round_half_even (x / pow2 (floor_log2 x - 52))) * pow2 (floor_log2 x - 52)"
  by (simp add: double_round_def Let_def)

lemma double_round_bounds:
  assumes "0 < x"
  shows "pow2 (floor_log2 x) \<le> double_round x" "double_round x \<le> pow2 (floor_log2 x + 1)"
proof -
  let ?e = "floor_log2 x - 52"
  let ?m = "round_half_even (x / pow2 ?e)"
  have "pow2 (floor_log2 x) = pow2 52 * pow2 ?e" by (simp add: pow2_add [symmetric])
  also have "\<dots> \<le> of_int ?m * pow2 ?e"
  proof (rule mult_right_mono)
    have "(of_int (2 ^ 52) :: rat) \<le> of_int ?m"
      using mantissa_range(1) [OF assms] by (simp only: of_int_le_iff)
    then show "pow2 52 \<le> of_int ?m" by (simp only: pow2_52)
    show "0 \<le> pow2 ?e" using pow2_pos [of ?e] by simp
  qed
  finally show "pow2 (floor_log2 x) \<le> double_round x"
    by (simp only: double_round_pos [OF assms])
  have "of_int ?m * pow2 ?e \<le> pow2 53 * pow2 ?e"
  proof (rule mult_right_mono)
    have "(of_int ?m :: rat) \<le> of_int (2 ^ 53)"
      using mantissa_range(2) [OF assms] by (simp only: of_int_le_iff)
    then show "of_int ?m \<le> pow2 53" by (simp only: pow2_53)
    show "0 \<le> pow2 ?e" using pow2_pos [of ?e] by simp
  qed
  also have "\<dots> = pow2 (floor_log2 x + 1)" by (simp add: pow2_add [symmetric] add.commute)
  finally show "double_round x \<le> pow2 (floor_log2 x + 1)"
    by (simp only: double_round_pos [OF assms])
qed

lemma double_round_nonneg: "0 \<le> double_round x"
proof (cases "0 < x")
  case True
  have "0 \<le> pow2 (floor_log2 x)" using pow2_pos [of "floor_log2 x"] by simp
  also have "\<dots> \<le> double_round x" by (rule double_round_bounds(1) [OF True])
  finally show ?thesis .
next
  case False
  then show ?thesis by (simp add: double_round_def)
qed

lemma double_round_mono:
  assumes "x \<le> y"
  shows "double_round x \<le> double_round y"
proof (cases "0 < x")
  case False
  then have "double_round x = 0" by (simp add: double_round_def)
  then show ?thesis using double_round_nonneg [of y] by simp
next
  case True
  with assms have y: "0 < y" by simp
  have l: "floor_log2 x \<le> floor_log2 y" by (rule floor_log2_mono [OF True assms])
  show ?thesis
  proof (cases "floor_log2 x = floor_log2 y")
    case True
    let ?e = "floor_log2 y - 52"
    have "x / pow2 ?e \<le> y / pow2 ?e"
      using assms pow2_pos [of ?e] by (simp add: divide_right_mono)
    then have "round_half_even (x / pow2 ?e) \<le> round_half_even (y / pow2 ?e)"
      by (rule round_half_even_mono)
    then have "(of_int (round_half_even (x / pow2 ?e)) :: rat)
        \<le> of_int (round_half_even (y / pow2 ?e))"
      by (simp only: of_int_le_iff)
    then have "of_int (round_half_even (x / pow2 ?e)) * pow2 ?e
        \<le> of_int (round_half_even (y / pow2 ?e)) * pow2 ?e"
      using pow2_pos [of ?e] by (simp add: mult_right_mono)
    then show ?thesis
      by (simp only: double_round_pos [OF \<open>0 < x\<close>] double_round_pos [OF y] True)
  next
    case False
    with l have "floor_log2 x + 1 \<le> floor_log2 y" by simp
    then have "pow2 (floor_log2 x + 1) \<le> pow2 (floor_log2 y)" by (rule pow2_mono)
    with double_round_bounds(2) [OF \<open>0 < x\<close>] double_round_bounds(1) [OF y]
    show ?thesis by linarith
  qed
qed

lemma double_round_1: "double_round 1 = 1" by code_simp
lemma double_round_100: "double_round 100 = 100" by code_simp
lemma double_round_below_1: "double_round (1 - 1 / 2 ^ 53) = 1 - 1 / 2 ^ 53" by code_simp
lemma double_round_below_100: "double_round ((1 - 1 / 2 ^ 53) * 100) < 100" by code_simp

lemma progress_value_eq:
  "progress_value i n = \<lfloor>double_round (double_round (of_int (int i + 1) / of_int (int n)) * 100)\<rfloor>"
  by (simp add: progress_value_def py_int_def py_float_mul_def py_truediv_def double_round_nonneg)

section \<open>Properties of the restore progress\<close>

lemma progress_value_mono:
  assumes "i \<le> j" "0 < n"
  shows "progress_value i n \<le> progress_value j n"
proof -
  have "(of_int (int i + 1) :: rat) / of_int (int n) \<le> of_int (int j + 1) / of_int (int n)"
    using assms by (simp add: divide_right_mono)
  then have "double_round (of_int (int i + 1) / of_int (int n))
      \<le> double_round (of_int (int j + 1) / of_int (int n))"
    by (rule double_round_mono)
  then have "double_round (of_int (int i + 1) / of_int (int n)) * 100
      \<le> double_round (of_int (int j + 1) / of_int (int n)) * 100"
    by simp
  then have "double_round (double_round (of_int (int i + 1) / of_int (int n)) * 100)
      \<le> double_round (double_round (of_int (int j + 1) / of_int (int n)) * 100)"
    by (rule double_round_mono)
  then show ?thesis unfolding progress_value_eq by (rule floor_mono)
qed

lemma progress_value_last: "progress_value k (Suc k) = 100"
proof -
  have e: "(of_int (int k + 1) :: rat) = of_int (int (Suc k))" by simp
  have z: "(of_int (int (Suc k)) :: rat) \<noteq> 0" by simp
  have q: "(of_int (int k + 1) :: rat) / of_int (int (Suc k)) = 1"
    unfolding e using z by (rule divide_self)
  have h: "(1::rat) * 100 = 100" by simp
  have f: "\<lfloor>100::rat\<rfloor> = 100" by simp
  show ?thesis
    unfolding progress_value_eq q double_round_1 h double_round_100 by (rule f)
qed

lemma ratio_below:
  fixes a N :: rat
  assumes "0 < N" "N \<le> B" "a \<le> N - 1"
  shows "a / N \<le> 1 - 1 / B"
proof -
  have b: "0 < B" using assms by linarith
  have "a / N \<le> (N - 1) / N" using assms by (simp add: divide_right_mono)
  also have "\<dots> = 1 - 1 / N" using assms(1) by (simp add: diff_divide_distrib)
  also have "\<dots> \<le> 1 - 1 / B"
  proof -
    have "1 / B \<le> 1 / N" using assms(1,2) by (simp add: frac_le)
    then show ?thesis by linarith
  qed
  finally show ?thesis .
qed

lemma progress_value_below:
  assumes "Suc i < n" "n < 2 ^ 53"
  shows "progress_value i n < 100"
proof -
  have n: "(0::rat) < of_int (int n)" using assms(1) by simp
  have "int n \<le> 2 ^ 53" using assms(2) by simp
  then have "(of_int (int n) :: rat) \<le> of_int (2 ^ 53)" by (simp only: of_int_le_iff)
  then have n53: "(of_int (int n) :: rat) \<le> 2 ^ 53" by simp
  have "int i + 1 \<le> int n - 1" using assms(1) by linarith
  then have "(of_int (int i + 1) :: rat) \<le> of_int (int n - 1)" by (simp only: of_int_le_iff)
  then have a: "(of_int (int i + 1) :: rat) \<le> of_int (int n) - 1" by simp
  have "(of_int (int i + 1) :: rat) / of_int (int n) \<le> 1 - 1 / 2 ^ 53"
    by (rule ratio_below [OF n n53 a])
  then have "double_round (of_int (int i + 1) / of_int (int n)) \<le> double_round (1 - 1 / 2 ^ 53)"
    by (rule double_round_mono)
  then have "double_round (of_int (int i + 1) / of_int (int n)) \<le> 1 - 1 / 2 ^ 53"
    by (simp only: double_round_below_1)
  then have "double_round (of_int (int i + 1) / of_int (int n)) * 100 \<le> (1 - 1 / 2 ^ 53) * 100"
    by (rule mult_right_mono) simp
  then have "double_round (double_round (of_int (int i + 1) / of_int (int n)) * 100)
      \<le> double_round ((1 - 1 / 2 ^ 53) * 100)"
    by (rule double_round_mono)
  then have "double_round (double_round (of_int (int i + 1) / of_int (int n)) * 100) < 100"
    using double_round_below_100 by (rule le_less_trans)
  then have "\<lfloor>double_round (double_round (of_int (int i + 1) / of_int (int n)) * 100)\<rfloor> < 100"
    by (simp only: floor_less_iff of_int_numeral)
  then show ?thesis by (simp only: progress_value_eq)
qed

lemma restore_loop_calls:
  "restore_loop os mount cb n i members w calls = (None, w', calls') \<Longrightarrow>
   calls' = calls @ (if cb then map (\<lambda>k. progress_value k n) [i..<i + length members] else [])"
proof (induction members arbitrary: i w calls)
  case Nil
  then show ?case by simp
next
  case (Cons member members)
  obtain r w1 where e: "tar_extract os (member\<lparr>tar_name := normpath os (tar_name member)\<rparr>) mount w
      = (r, w1)"
    by (cases "tar_extract os (member\<lparr>tar_name := normpath os (tar_name member)\<rparr>) mount w")
  show ?case
  proof (cases r)
    case (Some a)
    with Cons.prems e show ?thesis by simp
  next
    case None
    with Cons.prems e
    have "restore_loop os mount cb n (Suc i) members w1
            (if cb then calls @ [progress_value i n] else calls) = (None, w', calls')"
      by simp
    from Cons.IH [OF this]
    have "calls' = (if cb then calls @ [progress_value i n] else calls)
        @ (if cb then map (\<lambda>k. progress_value k n) [Suc i..<Suc i + length members] else [])" .
    moreover have "[i..<i + length (member # members)] = i # [Suc i..<Suc i + length members]"
    proof -
      have "i < Suc i + length members" by simp
      then have "[i..<Suc i + length members] = i # [Suc i..<Suc i + length members]"
        by (rule upt_conv_Cons)
      then show ?thesis by simp
    qed
    ultimately show ?thesis by simp
  qed
qed

lemma restore_archive_success:
  assumes "raised (restore_archive os w archive_path mount cb) = None"
    and "tar_getmembers os w (normpath os archive_path) = Inr members"
  shows "\<exists>w'. restore_loop os (normpath os mount) cb (length members) 0 members w []
           = (None, w', progress_calls (restore_archive os w archive_path mount cb))"
  using assms
  by (auto simp: restore_archive_def Let_def split: if_splits prod.splits bool.splits option.splits)

lemma progress_exactly_once:
  assumes "k < n" "n < 2 ^ 53"
  shows "progress_value k n = 100 \<longleftrightarrow> k = n - 1"
proof (cases "k = n - 1")
  case True
  with assms(1) have "n = Suc k" by simp
  then show ?thesis using progress_value_last [of k] True by simp
next
  case False
  with assms(1) have "Suc k < n" by simp
  from progress_value_below [OF this assms(2)] False show ?thesis by simp
qed

text \<open>
  Claim C5, as the code has it. A call of \<open>restore_archive\<close> with a progress
  callback that raises nothing, on an archive of at least one and fewer than
  \<open>2 ^ 53\<close> members, calls the callback once after each member, in archive
  order; the value of call \<open>i\<close> (counted from 0) is
  \<^verbatim>\<open>int((i + 1) / total_members * 100)\<close>, computed on doubles and truncated, not
  rounded. The values are non-decreasing, and a call has the value 100 exactly
  when it is the last one.
\<close>

theorem restore_archive_progress:
  assumes "raised (restore_archive os w archive_path mount True) = None"
    and "tar_getmembers os w (normpath os archive_path) = Inr members"
    and "members \<noteq> []"
    and "length members < 2 ^ 53"
  shows "progress_calls (restore_archive os w archive_path mount True)
           = map (\<lambda>i. progress_value i (length members)) [0..<length members]
         \<and> sorted (progress_calls (restore_archive os w archive_path mount True))
         \<and> (\<forall>k<length members.
               progress_calls (restore_archive os w archive_path mount True) ! k = 100
                 \<longleftrightarrow> k = length members - 1)"
proof -
  let ?n = "length members"
  let ?calls = "progress_calls (restore_archive os w archive_path mount True)"
  from restore_archive_success [OF assms(1,2)] obtain w' where
    "restore_loop os (normpath os mount) True ?n 0 members w [] = (None, w', ?calls)" ..
  from restore_loop_calls [OF this]
  have c: "?calls = map (\<lambda>i. progress_value i ?n) [0..<?n]" by simp
  have n: "0 < ?n" using assms(3) by simp
  have s: "sorted (map (\<lambda>i. progress_value i ?n) [0..<?n])"
    by (simp add: sorted_iff_nth_mono progress_value_mono [OF _ n])
  have o: "\<forall>k<?n. map (\<lambda>i. progress_value i ?n) [0..<?n] ! k = 100 \<longleftrightarrow> k = ?n - 1"
    using progress_exactly_once [OF _ assms(4)] by simp
  from c s o show ?thesis by simp
qed

text \<open>
  The theorem at an archive of three members: the values are 33, 66 and 100.
\<close>

theorem restore_archive_progress_witness:
  "progress_calls (restore_archive table_os archive_machine ''/home/u/opie/backups/c.tar.xz''
       ''/Volumes/OP-1'' True) = [33, 66, 100]
   \<and> sorted (progress_calls (restore_archive table_os archive_machine
       ''/home/u/opie/backups/c.tar.xz'' ''/Volumes/OP-1'' True))
   \<and> progress_calls (restore_archive table_os archive_machine ''/home/u/opie/backups/c.tar.xz''
       ''/Volumes/OP-1'' True) ! 2 = 100"
proof -
  let ?r = "restore_archive table_os archive_machine ''/home/u/opie/backups/c.tar.xz''
       ''/Volumes/OP-1'' True"
  have a: "raised ?r = None" by code_simp
  have g: "tar_getmembers table_os archive_machine
      (normpath table_os ''/home/u/opie/backups/c.tar.xz'') = Inr (take 3 example_members)"
    by code_simp
  have n: "take 3 example_members \<noteq> []" by code_simp
  have l: "length (take 3 example_members) = 3" by code_simp
  have b: "length (take 3 example_members) < 2 ^ 53" unfolding l by simp
  note t = restore_archive_progress [OF a g n b]
  have v: "map (\<lambda>i. progress_value i 3) [0..<3] = [33, 66, 100]" by code_simp
  have c: "progress_calls ?r = [33, 66, 100]"
    using conjunct1 [OF t] unfolding l v .
  have s: "sorted (progress_calls ?r)" using conjunct1 [OF conjunct2 [OF t]] .
  have "(2::nat) < length (take 3 example_members)" unfolding l by simp
  with conjunct2 [OF conjunct2 [OF t]]
  have "progress_calls ?r ! 2 = 100 \<longleftrightarrow> 2 = length (take 3 example_members) - 1" by blast
  then have d: "progress_calls ?r ! 2 = 100" unfolding l by simp
  from c s d show ?thesis by (intro conjI)
qed

text \<open>
  The specification's formula \<^verbatim>\<open>round((entriesProcessed/total)*100)\<close> gives 67
  for the second of three members; the code reports 66.
\<close>

theorem restore_archive_progress_counterexample:
  "raised (restore_archive table_os archive_machine ''/home/u/opie/backups/c.tar.xz''
       ''/Volumes/OP-1'' True) = None
   \<and> progress_calls (restore_archive table_os archive_machine ''/home/u/opie/backups/c.tar.xz''
       ''/Volumes/OP-1'' True) = [33, 66, 100]
   \<and> map (\<lambda>k. spec_progress k 3) [1, 2, 3] = [33, 67, 100]"
  by code_simp

section \<open>Properties of the archive writer\<close>

text \<open>
  Claim C3 says that no member of the archive has a name with a hidden
  component. The source tests only the last component of a path that
  \<^verbatim>\<open>os.walk\<close> reports, while \<^verbatim>\<open>os.walk\<close> still goes into the hidden directories
  and \<^verbatim>\<open>tar.add\<close> adds a directory with everything below it. On the example
  volume the archive has the members \<^verbatim>\<open>synth/user/._lead.aif\<close>, a hidden file
  below a directory that is not hidden, and \<^verbatim>\<open>drum/.cache/kit.aif\<close>, a file in a
  hidden directory. (The file \<^verbatim>\<open>synth/user/lead.aif\<close> is written twice.)
\<close>

theorem generate_archive_hidden_members:
  "map_sum id (map tar_name) (generate_archive ''/home/u'' example_fs ''/Volumes/OP-1'')
     = Inr [''tape'', ''tape/track_1.aif'', ''album'', ''album/side_a.aif'',
            ''synth'', ''synth/user'', ''synth/user/._lead.aif'', ''synth/user/lead.aif'',
            ''synth/user/lead.aif'', ''drum'', ''drum/.cache/kit.aif'']
   \<and> map_sum id (filter hidden_name \<circ> map tar_name)
         (generate_archive ''/home/u'' example_fs ''/Volumes/OP-1'')
     = Inr [''synth/user/._lead.aif'', ''drum/.cache/kit.aif'']"
  by code_simp

section \<open>Properties of the path functions\<close>




























section \<open>Properties of extraction\<close>













section \<open>Properties of the generated members\<close>














section \<open>Backup and restore\<close>





end
